theory Spec2Isabelle
  imports Complex_Main
begin

section \<open>Text: characters, lowercasing, substrings\<close>

text \<open>
  The monitor of \<^verbatim>\<open>src/main.py\<close> works on Python \<^verbatim>\<open>str\<close> values. They are modelled as
  \<^typ>\<open>string\<close>, a \<^typ>\<open>char\<close> standing for a code point below 256. The character classes
  are those of Python on that range: \<^verbatim>\<open>\s\<close> and \<^verbatim>\<open>str.strip\<close> use the whitespace class,
  \<^verbatim>\<open>\w\<close> (behind \<^verbatim>\<open>\b\<close>) the alphanumeric class plus the underscore.
\<close>

definition is_space :: "char \<Rightarrow> bool" where
  "is_space c =
     (let n = (of_char c :: nat)
      in (9 \<le> n \<and> n \<le> 13) \<or> (28 \<le> n \<and> n \<le> 32) \<or> n = 133 \<or> n = 160)"

definition is_word :: "char \<Rightarrow> bool" where
  "is_word c =
     (let n = (of_char c :: nat)
      in (48 \<le> n \<and> n \<le> 57) \<or> (65 \<le> n \<and> n \<le> 90) \<or> n = 95 \<or> (97 \<le> n \<and> n \<le> 122)
         \<or> n = 170 \<or> n = 178 \<or> n = 179 \<or> n = 181 \<or> n = 185 \<or> n = 186
         \<or> (188 \<le> n \<and> n \<le> 190) \<or> (192 \<le> n \<and> n \<le> 214) \<or> (216 \<le> n \<and> n \<le> 246)
         \<or> 248 \<le> n)"

text \<open>\<^verbatim>\<open>str.lower\<close>: the upper-case letters and the lower-case letters they become.\<close>

definition upper_letters :: string where
  "upper_letters = ''ABCDEFGHIJKLMNOPQRSTUVWXYZ'' @
     [CHR 0xC0, CHR 0xC1, CHR 0xC2, CHR 0xC3, CHR 0xC4, CHR 0xC5, CHR 0xC6, CHR 0xC7,
      CHR 0xC8, CHR 0xC9, CHR 0xCA, CHR 0xCB, CHR 0xCC, CHR 0xCD, CHR 0xCE, CHR 0xCF,
      CHR 0xD0, CHR 0xD1, CHR 0xD2, CHR 0xD3, CHR 0xD4, CHR 0xD5, CHR 0xD6,
      CHR 0xD8, CHR 0xD9, CHR 0xDA, CHR 0xDB, CHR 0xDC, CHR 0xDD, CHR 0xDE]"

definition lower_letters :: string where
  "lower_letters = ''abcdefghijklmnopqrstuvwxyz'' @
     [CHR 0xE0, CHR 0xE1, CHR 0xE2, CHR 0xE3, CHR 0xE4, CHR 0xE5, CHR 0xE6, CHR 0xE7,
      CHR 0xE8, CHR 0xE9, CHR 0xEA, CHR 0xEB, CHR 0xEC, CHR 0xED, CHR 0xEE, CHR 0xEF,
      CHR 0xF0, CHR 0xF1, CHR 0xF2, CHR 0xF3, CHR 0xF4, CHR 0xF5, CHR 0xF6,
      CHR 0xF8, CHR 0xF9, CHR 0xFA, CHR 0xFB, CHR 0xFC, CHR 0xFD, CHR 0xFE]"

definition lower_char :: "char \<Rightarrow> char" where
  "lower_char c = (case map_of (zip upper_letters lower_letters) c of None \<Rightarrow> c | Some l \<Rightarrow> l)"

definition py_lower :: "string \<Rightarrow> string" where
  "py_lower s = map lower_char s"

text \<open>\<^verbatim>\<open>str.strip()\<close>: whitespace removed at both ends.\<close>

definition py_strip :: "string \<Rightarrow> string" where
  "py_strip s = rev (dropWhile is_space (rev (dropWhile is_space s)))"

text \<open>\<^verbatim>\<open>' '.join(xs)\<close>.\<close>

fun join_space :: "string list \<Rightarrow> string" where
  "join_space [] = []"
| "join_space [x] = x"
| "join_space (x # y # ys) = x @ '' '' @ join_space (y # ys)"

text \<open>\<^verbatim>\<open>sub in s\<close> on strings: \<open>sub\<close> occurs in \<open>s\<close> as a contiguous run.\<close>

fun starts_with :: "string \<Rightarrow> string \<Rightarrow> bool" where
  "starts_with [] s = True"
| "starts_with (p # ps) [] = False"
| "starts_with (p # ps) (x # xs) = (p = x \<and> starts_with ps xs)"

fun py_in :: "string \<Rightarrow> string \<Rightarrow> bool" where
  "py_in sub [] = (sub = [])"
| "py_in sub (x # xs) = (starts_with sub (x # xs) \<or> py_in sub xs)"

text \<open>Python truthiness of a value that is \<^verbatim>\<open>None\<close> or a string: only a non-empty string is true.\<close>

definition truthy :: "string option \<Rightarrow> bool" where
  "truthy v = (case v of None \<Rightarrow> False | Some s \<Rightarrow> s \<noteq> [])"

section \<open>The regular expressions of the classifier\<close>

text \<open>
  The patterns of \<^verbatim>\<open>check_event_availability\<close> use literal characters, \<^verbatim>\<open>\s+\<close>, \<^verbatim>\<open>\b\<close> and
  one optional character (\<^verbatim>\<open>s?\<close>). \<open>match_here\<close> decides whether a pattern matches at the
  start of the remaining text, given the character before it (for \<^verbatim>\<open>\b\<close>); \<open>re_search\<close> is
  the truth value of \<^verbatim>\<open>re.search\<close>: a match at some position. The first argument is the
  \<^verbatim>\<open>re.IGNORECASE\<close> flag.
\<close>

datatype rx = Chr char | Spaces | Boundary | Optional char

definition lit :: "string \<Rightarrow> rx list" where
  "lit s = map Chr s"

definition chr_eq :: "bool \<Rightarrow> char \<Rightarrow> char \<Rightarrow> bool" where
  "chr_eq ic p x = (if ic then lower_char x = lower_char p else x = p)"

definition word_opt :: "char option \<Rightarrow> bool" where
  "word_opt c = (case c of None \<Rightarrow> False | Some x \<Rightarrow> is_word x)"

definition next_char :: "string \<Rightarrow> char option" where
  "next_char s = (case s of [] \<Rightarrow> None | x # _ \<Rightarrow> Some x)"

fun match_here :: "bool \<Rightarrow> rx list \<Rightarrow> char option \<Rightarrow> string \<Rightarrow> bool" where
  "match_here ic [] prev s = True"
| "match_here ic (Chr p # r) prev [] = False"
| "match_here ic (Chr p # r) prev (x # xs) = (chr_eq ic p x \<and> match_here ic r (Some x) xs)"
| "match_here ic (Optional p # r) prev [] = match_here ic r prev []"
| "match_here ic (Optional p # r) prev (x # xs) =
     ((chr_eq ic p x \<and> match_here ic r (Some x) xs) \<or> match_here ic r prev (x # xs))"
| "match_here ic (Boundary # r) prev s =
     (word_opt prev \<noteq> word_opt (next_char s) \<and> match_here ic r prev s)"
| "match_here ic (Spaces # r) prev [] = False"
| "match_here ic (Spaces # r) prev (x # xs) =
     (is_space x \<and> (match_here ic (Spaces # r) (Some x) xs \<or> match_here ic r (Some x) xs))"

fun search_from :: "bool \<Rightarrow> rx list \<Rightarrow> char option \<Rightarrow> string \<Rightarrow> bool" where
  "search_from ic p prev [] = match_here ic p prev []"
| "search_from ic p prev (x # xs) = (match_here ic p prev (x # xs) \<or> search_from ic p (Some x) xs)"

definition re_search :: "bool \<Rightarrow> rx list \<Rightarrow> string \<Rightarrow> bool" where
  "re_search ic p s = search_from ic p None s"

text \<open>The three pattern lists, in the order of the source.\<close>

definition sold_out_patterns :: "rx list list" where
  "sold_out_patterns =
     [[Boundary] @ lit ''sold out'' @ [Boundary],
      [Boundary] @ lit ''registration closed'' @ [Boundary],
      [Boundary] @ lit ''tickets unavailable'' @ [Boundary],
      [Boundary] @ lit ''event has ended'' @ [Boundary],
      [Boundary] @ lit ''registration is closed'' @ [Boundary],
      [Boundary] @ lit ''no longer available'' @ [Boundary],
      [Boundary] @ lit ''unavailable'' @ [Boundary],
      [Boundary] @ lit ''sales ended'' @ [Boundary],
      [Boundary] @ lit ''sale has ended'' @ [Boundary],
      [Boundary] @ lit ''events ended'' @ [Boundary]]"

definition availability_patterns :: "rx list list" where
  "availability_patterns =
     [lit ''select'' @ [Spaces] @ lit ''date'' @ [Spaces] @ lit ''and'' @ [Spaces] @ lit ''time'',
      lit ''reserve'' @ [Spaces] @ lit ''a'' @ [Spaces] @ lit ''spot'',
      lit ''get'' @ [Spaces] @ lit ''tickets'',
      lit ''buy'' @ [Spaces] @ lit ''now'',
      lit ''purchase'' @ [Spaces] @ lit ''tickets'',
      lit ''register'' @ [Spaces] @ lit ''now'']"

definition quantity_patterns :: "rx list list" where
  "quantity_patterns =
     [[Boundary, Chr CHR ''0'', Spaces] @ lit ''remaining'' @ [Boundary],
      [Boundary, Chr CHR ''0'', Spaces] @ lit ''ticket'' @ [Optional CHR ''s'', Spaces]
        @ lit ''remaining'' @ [Boundary],
      [Boundary, Chr CHR ''0'', Spaces] @ lit ''spot'' @ [Optional CHR ''s'', Spaces]
        @ lit ''remaining'' @ [Boundary]]"

section \<open>The event check\<close>

text \<open>
  What the check reads of an element found by \<^verbatim>\<open>soup.select\<close> or \<^verbatim>\<open>soup.find_all\<close>:
  \<^verbatim>\<open>get_text()\<close>, \<^verbatim>\<open>get('class', [])\<close> and \<^verbatim>\<open>get('disabled')\<close>. An attribute written without
  a value, as in \<^verbatim>\<open><button disabled>\<close>, has the empty string as its value.
\<close>

record tag =
  tag_text :: string
  tag_class :: "string list"
  tag_disabled :: "string option"

text \<open>
  The parsed document, as far as the check queries it: the text of the whole page, the
  text of the title element found (if any), the elements each CSS selector selects, and
  the elements whose class matches \<^verbatim>\<open>sold.?out|unavailable\<close>.
\<close>

record page =
  get_text :: string
  title_elem :: "string option"
  select :: "string \<Rightarrow> tag list"
  sold_out_elements :: "tag list"

text \<open>
  Exceptions deriving from \<^verbatim>\<open>Exception\<close>, by the two classes the handlers tell apart:
  \<^verbatim>\<open>requests.RequestException\<close> (connection error, timeout, HTTP error status) and
  everything else. The argument is \<^verbatim>\<open>str(e)\<close>.
\<close>

datatype exn = RequestException string | OtherException string

text \<open>
  The status dictionary. The keys \<^verbatim>\<open>url\<close>, \<^verbatim>\<open>title\<close>, \<^verbatim>\<open>available\<close> and \<^verbatim>\<open>checked_at\<close> are in
  every dictionary the check returns; each other key is in some only, and \<open>None\<close> says
  that the key is absent.
\<close>

record status =
  url :: string
  title :: string
  available :: bool
  sold_out :: "bool option"
  total_buttons_found :: "nat option"
  available_buttons :: "nat option"
  sold_out_text_found :: "bool option"
  sold_out_elements_found :: "bool option"
  zero_remaining_found :: "bool option"
  availability_text_found :: "bool option"
  error :: "string option"
  checked_at :: string

definition ticket_selectors :: "string list" where
  "ticket_selectors =
     [''button[data-spec=\"eds-button\"]'',
      ''a[data-spec=\"eds-button\"]'',
      ''button[class*=\"ticket\"]'',
      ''a[class*=\"ticket\"]'',
      ''button[class*=\"register\"]'',
      ''a[class*=\"register\"]'',
      ''.ticket-button'',
      ''.register-button'',
      ''[data-automation=\"checkout-widget-register-button\"]'']"

definition ticket_words :: "string list" where
  "ticket_words = [''ticket'', ''register'', ''get tickets'', ''buy now'', ''purchase'', ''reserve a spot'']"

definition is_disabled :: "tag \<Rightarrow> bool" where
  "is_disabled button =
     (let button_classes = py_lower (join_space (tag_class button))
      in truthy (tag_disabled button) \<or> py_in ''disabled'' button_classes
         \<or> py_in ''sold-out'' button_classes \<or> py_in ''unavailable'' button_classes)"

definition has_ticket_text :: "tag \<Rightarrow> bool" where
  "has_ticket_text button =
     (let button_text = py_lower (tag_text button)
      in list_ex (\<lambda>word. py_in word button_text) ticket_words)"

text \<open>The two nested loops over selectors and buttons, carrying \<^verbatim>\<open>total_buttons\<close> and \<^verbatim>\<open>available_buttons\<close>.\<close>

fun scan_buttons :: "tag list \<Rightarrow> nat \<times> tag list \<Rightarrow> nat \<times> tag list" where
  "scan_buttons [] acc = acc"
| "scan_buttons (button # buttons) (total_buttons, avail) =
     scan_buttons buttons
       (total_buttons + 1,
        if has_ticket_text button \<and> \<not> is_disabled button then avail @ [button] else avail)"

fun scan_selectors :: "(string \<Rightarrow> tag list) \<Rightarrow> string list \<Rightarrow> nat \<times> tag list \<Rightarrow> nat \<times> tag list" where
  "scan_selectors sel [] acc = acc"
| "scan_selectors sel (selector # selectors) acc =
     scan_selectors sel selectors (scan_buttons (sel selector) acc)"

definition is_sold_out_text :: "string \<Rightarrow> bool" where
  "is_sold_out_text page_text = list_ex (\<lambda>pattern. re_search False pattern page_text) sold_out_patterns"

definition has_availability_text :: "string \<Rightarrow> bool" where
  "has_availability_text page_text =
     list_ex (\<lambda>pattern. re_search True pattern page_text) availability_patterns"

definition has_zero_remaining :: "string \<Rightarrow> bool" where
  "has_zero_remaining page_text = list_ex (\<lambda>pattern. re_search False pattern page_text) quantity_patterns"

definition page_text :: "page \<Rightarrow> string" where
  "page_text pg = py_lower (get_text pg)"

definition event_title :: "page \<Rightarrow> string" where
  "event_title pg = (case title_elem pg of Some t \<Rightarrow> py_strip t | None \<Rightarrow> ''Unknown Event'')"

text \<open>The status built at the end of the \<^verbatim>\<open>try\<close> block, from a page fetched and parsed without an exception.\<close>

definition classify :: "page \<Rightarrow> string \<Rightarrow> string \<Rightarrow> status" where
  "classify pg event_url now =
     (let (total_buttons, avail) = scan_selectors (select pg) ticket_selectors (0, []);
          has_sold_out_elements = (length (sold_out_elements pg) > 0);
          is_definitely_sold_out =
            ((is_sold_out_text (page_text pg) \<or> has_sold_out_elements \<or> has_zero_remaining (page_text pg))
             \<and> \<not> has_availability_text (page_text pg));
          is_available =
            ((has_availability_text (page_text pg) \<or> length avail > 0) \<and> \<not> is_definitely_sold_out)
      in \<lparr> url = event_url,
           title = event_title pg,
           available = is_available,
           sold_out = Some is_definitely_sold_out,
           total_buttons_found = Some total_buttons,
           available_buttons = Some (length avail),
           sold_out_text_found = Some (is_sold_out_text (page_text pg)),
           sold_out_elements_found = Some has_sold_out_elements,
           zero_remaining_found = Some (has_zero_remaining (page_text pg)),
           availability_text_found = Some (has_availability_text (page_text pg)),
           error = None,
           checked_at = now \<rparr>)"

text \<open>
  \<^verbatim>\<open>check_event_availability\<close>. Its first argument is what fetching and parsing the
  page gave inside the \<^verbatim>\<open>try\<close> block: an exception raised there, or the page. The last
  argument is the reading of \<^verbatim>\<open>datetime.now().isoformat()\<close>. The two \<^verbatim>\<open>except\<close> clauses
  turn every exception into a status.
\<close>

definition check_event_availability :: "exn + page \<Rightarrow> string \<Rightarrow> string \<Rightarrow> status" where
  "check_event_availability fetched event_url now =
     (case fetched of
        Inr pg \<Rightarrow> classify pg event_url now
      | Inl (RequestException e) \<Rightarrow>
          \<lparr> url = event_url, title = ''Error - Network Issue'', available = False,
            sold_out = None, total_buttons_found = None, available_buttons = None,
            sold_out_text_found = None, sold_out_elements_found = None,
            zero_remaining_found = None, availability_text_found = None,
            error = Some e, checked_at = now \<rparr>
      | Inl (OtherException e) \<Rightarrow>
          \<lparr> url = event_url, title = ''Error - Parse Issue'', available = False,
            sold_out = None, total_buttons_found = None, available_buttons = None,
            sold_out_text_found = None, sold_out_elements_found = None,
            zero_remaining_found = None, availability_text_found = None,
            error = Some e, checked_at = now \<rparr>)"

section \<open>The call gateway\<close>

text \<open>The call statuses of the gateway, as the comment in \<^verbatim>\<open>check_call_answered\<close> lists them.\<close>

datatype call_status = Queued | Ringing | InProgress | Completed | Failed | Busy | NoAnswer | Canceled

text \<open>
  What the outside world answers while one event is processed once: the outcome of
  fetching and parsing its page, the clock reading for \<^verbatim>\<open>checked_at\<close>, the outcome of
  \<^verbatim>\<open>twilio_client.calls.create\<close> (an exception, or the sid of the new call) and the
  outcome of \<^verbatim>\<open>twilio_client.calls(sid).fetch()\<close> (an exception, or the call's status).
\<close>

record env =
  fetched :: "exn + page"
  clock :: string
  created :: "exn + string"
  fetched_call :: "string \<Rightarrow> exn + call_status"

text \<open>\<^verbatim>\<open>make_alert_call\<close> returns the sid of the call, or \<^verbatim>\<open>None\<close> when anything was raised.\<close>

definition make_alert_call :: "env \<Rightarrow> status \<Rightarrow> string option" where
  "make_alert_call e event_info = (case created e of Inr sid \<Rightarrow> Some sid | Inl ex \<Rightarrow> None)"

definition check_call_answered :: "env \<Rightarrow> string \<Rightarrow> bool" where
  "check_call_answered e call_sid =
     (case fetched_call e call_sid of
        Inr st \<Rightarrow> st = Completed \<or> st = InProgress
      | Inl ex \<Rightarrow> False)"

section \<open>The registry and the monitoring loop\<close>

text \<open>
  The per-event dictionary of \<^verbatim>\<open>monitored_events\<close>. \<^verbatim>\<open>add_event\<close> creates it without the keys
  \<^verbatim>\<open>last_call_sid\<close> and \<^verbatim>\<open>call_made_at\<close>. \<open>last_call_sid\<close> is what \<^verbatim>\<open>get('last_call_sid')\<close>
  gives: \<open>None\<close> for an absent key and for the value \<^verbatim>\<open>None\<close>. \<open>call_made_at\<close> keeps
  the three cases of \<^verbatim>\<open>get('call_made_at', 0)\<close> apart: key absent, \<^verbatim>\<open>None\<close>, a time.
  Times are the seconds of \<^verbatim>\<open>time.time()\<close>, modelled as real numbers.
\<close>

datatype stamp = Absent | PyNone | At real

record event_config =
  interval :: int
  last_check :: real
  last_status :: "status option"
  alert_sent :: bool
  last_call_sid :: "string option"
  call_made_at :: stamp

text \<open>Assignment to a key of a dictionary that keeps insertion order.\<close>

fun dict_set :: "'k \<Rightarrow> 'v \<Rightarrow> ('k \<times> 'v) list \<Rightarrow> ('k \<times> 'v) list" where
  "dict_set k v [] = [(k, v)]"
| "dict_set k v ((k', v') # kvs) = (if k' = k then (k, v) # kvs else (k', v') # dict_set k v kvs)"

text \<open>The dictionary \<^verbatim>\<open>add_event\<close> stores for a new event.\<close>

definition new_event_config :: "int \<Rightarrow> event_config" where
  "new_event_config check_interval =
     \<lparr> interval = check_interval, last_check = 0, last_status = None, alert_sent = False,
       last_call_sid = None, call_made_at = Absent \<rparr>"

definition add_event :: "(string \<times> event_config) list \<Rightarrow> string \<Rightarrow> int \<Rightarrow> (string \<times> event_config) list" where
  "add_event monitored_events event_url check_interval =
     dict_set event_url (new_event_config check_interval) monitored_events"

definition remove_event :: "(string \<times> event_config) list \<Rightarrow> string \<Rightarrow> (string \<times> event_config) list" where
  "remove_event monitored_events event_url = filter (\<lambda>kv. fst kv \<noteq> event_url) monitored_events"

text \<open>
  What one pass of the loop body did for one event: the status the check returned (when
  the event was due), whether \<^verbatim>\<open>make_alert_call\<close> was called, the sid of the call the
  gateway created, the result of \<^verbatim>\<open>check_call_answered\<close> (when it was called), and
  the exception the \<^verbatim>\<open>except Exception\<close> clause of the loop caught and logged.
\<close>

record outcome =
  checked :: "status option"
  call_attempted :: bool
  call_placed :: "string option"
  answered :: "bool option"
  raised :: "exn option"

text \<open>Lines 308-315: the alert call, guarded by \<^verbatim>\<open>status['available'] and not alert_sent\<close>.\<close>

definition trigger :: "real \<Rightarrow> env \<Rightarrow> status \<Rightarrow> event_config \<Rightarrow> event_config \<times> bool \<times> string option" where
  "trigger current_time e st c =
     (if available st \<and> \<not> alert_sent c then
        (case make_alert_call e st of
           Some call_sid \<Rightarrow>
             (if call_sid \<noteq> [] then c\<lparr>last_call_sid := Some call_sid, call_made_at := At current_time\<rparr> else c,
              True, Some call_sid)
         | None \<Rightarrow> (c, True, None))
      else (c, False, None))"

text \<open>
  Lines 318-319: the condition of the second \<^verbatim>\<open>if\<close>. It yields the sid to verify when the
  condition holds. Subtracting \<^verbatim>\<open>None\<close> from the time raises \<^verbatim>\<open>TypeError\<close>.
\<close>

definition verify_due :: "real \<Rightarrow> event_config \<Rightarrow> exn + string option" where
  "verify_due current_time c =
     (if truthy (last_call_sid c) then
        (case call_made_at c of
           Absent \<Rightarrow> Inr (if current_time - 0 > 120 then last_call_sid c else None)
         | PyNone \<Rightarrow> Inl (OtherException ''TypeError'')
         | At t \<Rightarrow> Inr (if current_time - t > 120 then last_call_sid c else None))
      else Inr None)"

text \<open>
  The body of the \<^verbatim>\<open>for\<close> loop with its \<^verbatim>\<open>try\<close>/\<^verbatim>\<open>except\<close>, for one event at one tick. The
  dictionary is mutated in place, so what was assigned before an exception stays.
\<close>

definition process_event :: "real \<Rightarrow> env \<Rightarrow> string \<Rightarrow> event_config \<Rightarrow> event_config \<times> outcome" where
  "process_event current_time e event_url c =
     (if current_time - last_check c \<ge> real_of_int (interval c) then
        (let st = check_event_availability (fetched e) event_url (clock e);
             (c1, attempted, placed) = trigger current_time e st c
         in case verify_due current_time c1 of
              Inl ex \<Rightarrow>
                (c1, \<lparr> checked = Some st, call_attempted = attempted, call_placed = placed,
                       answered = None, raised = Some ex \<rparr>)
            | Inr None \<Rightarrow>
                (c1\<lparr>last_check := current_time, last_status := Some st\<rparr>,
                 \<lparr> checked = Some st, call_attempted = attempted, call_placed = placed,
                   answered = None, raised = None \<rparr>)
            | Inr (Some sid) \<Rightarrow>
                (let ans = check_call_answered e sid;
                     c2 = (if ans then c1\<lparr>alert_sent := True\<rparr>
                           else c1\<lparr>last_call_sid := None, call_made_at := PyNone\<rparr>)
                 in (c2\<lparr>last_check := current_time, last_status := Some st\<rparr>,
                     \<lparr> checked = Some st, call_attempted = attempted, call_placed = placed,
                       answered = Some ans, raised = None \<rparr>)))
      else (c, \<lparr> checked = None, call_attempted = False, call_placed = None,
                answered = None, raised = None \<rparr>))"

text \<open>The \<^verbatim>\<open>for\<close> loop of one tick over the registry, in its order.\<close>

fun for_events ::
  "real \<Rightarrow> (string \<Rightarrow> env) \<Rightarrow> (string \<times> event_config) list
     \<Rightarrow> (string \<times> event_config) list \<times> (string \<times> outcome) list" where
  "for_events current_time world [] = ([], [])"
| "for_events current_time world ((event_url, c) # rest) =
     (let (c', out) = process_event current_time (world event_url) event_url c;
          (rest', outs) = for_events current_time world rest
      in ((event_url, c') # rest', (event_url, out) # outs))"

text \<open>
  \<^verbatim>\<open>monitor_events\<close>: the \<^verbatim>\<open>while\<close> loop, run over the ticks given. A tick is the reading of
  \<^verbatim>\<open>time.time()\<close> at its start and the world's answers for each event during it. The result
  is the registry after the last tick and, tick by tick, what was done for each event.
\<close>

fun monitor_events ::
  "(real \<times> (string \<Rightarrow> env)) list \<Rightarrow> (string \<times> event_config) list
     \<Rightarrow> (string \<times> event_config) list \<times> (string \<times> outcome) list list" where
  "monitor_events [] reg = (reg, [])"
| "monitor_events ((current_time, world) # ticks) reg =
     (let (reg1, outs) = for_events current_time world reg;
          (reg2, trace) = monitor_events ticks reg1
      in (reg2, outs # trace))"

text \<open>The same loop seen from one event: its configuration and its answers at each tick.\<close>

fun run_event :: "(real \<times> env) list \<Rightarrow> string \<Rightarrow> event_config \<Rightarrow> event_config \<times> outcome list" where
  "run_event [] event_url c = (c, [])"
| "run_event ((current_time, e) # ticks) event_url c =
     (let (c1, out) = process_event current_time e event_url c;
          (c2, outs) = run_event ticks event_url c1
      in (c2, out # outs))"

section \<open>Phrases and sample inputs\<close>

text \<open>The phrases behind the patterns, as plain strings.\<close>

definition purchase_phrases :: "string list" where
  "purchase_phrases = [''select date and time'', ''reserve a spot'', ''get tickets'', ''buy now'',
     ''purchase tickets'', ''register now'']"

definition sold_out_phrases :: "string list" where
  "sold_out_phrases = [''sold out'', ''registration closed'', ''tickets unavailable'',
     ''event has ended'', ''registration is closed'', ''no longer available'', ''unavailable'',
     ''sales ended'', ''sale has ended'', ''events ended'']"

text \<open>Some phrase of the list occurs in the text, as a substring.\<close>

definition contains_any :: "string list \<Rightarrow> string \<Rightarrow> bool" where
  "contains_any phrases s = list_ex (\<lambda>ph. py_in ph s) phrases"

text \<open>
  The phrase occurs in the text as whole words: neither the character before the
  occurrence nor the one after it is a word character.
\<close>

definition occurs_at :: "string \<Rightarrow> char option \<Rightarrow> string \<Rightarrow> bool" where
  "occurs_at ph prev s =
     (starts_with ph s \<and> \<not> word_opt prev \<and> \<not> word_opt (next_char (drop (length ph) s)))"

fun whole_from :: "string \<Rightarrow> char option \<Rightarrow> string \<Rightarrow> bool" where
  "whole_from ph prev [] = occurs_at ph prev []"
| "whole_from ph prev (x # xs) = (occurs_at ph prev (x # xs) \<or> whole_from ph (Some x) xs)"

definition contains_whole :: "string list \<Rightarrow> string \<Rightarrow> bool" where
  "contains_whole phrases s = list_ex (\<lambda>ph. whole_from ph None s) phrases"

definition phrase_rx :: "string \<Rightarrow> rx list" where
  "phrase_rx ph = map (\<lambda>c. if c = CHR '' '' then Spaces else Chr c) ph"

definition word_rx :: "string \<Rightarrow> rx list" where
  "word_rx ph = [Boundary] @ lit ph @ [Boundary]"

text \<open>A control counts as available: the test of line 174.\<close>

definition eligible :: "tag \<Rightarrow> bool" where
  "eligible button = (has_ticket_text button \<and> \<not> is_disabled button)"

text \<open>A page of text only: no title element, no element selected, none marked sold out.\<close>

definition text_page :: "string \<Rightarrow> page" where
  "text_page t = \<lparr> get_text = t, title_elem = None, select = (\<lambda>selector. []), sold_out_elements = [] \<rparr>"

text \<open>The buttons \<^verbatim>\<open>soup.select\<close> finds, selector by selector.\<close>

definition selected_buttons :: "page \<Rightarrow> tag list" where
  "selected_buttons pg = concat (map (select pg) ticket_selectors)"

text \<open>A page that shows every sold-out signal and a purchase-intent phrase as well.\<close>

definition busy_page :: page where
  "busy_page = \<lparr> get_text = ''Sold out! 0 remaining. Get Tickets'', title_elem = Some '' Gala '',
     select = (\<lambda>selector. []),
     sold_out_elements = [\<lparr> tag_text = ''Sold out'', tag_class = [''sold-out''], tag_disabled = None \<rparr>] \<rparr>"

text \<open>
  The page \<^verbatim>\<open><button data-spec="eds-button" disabled>Register</button>\<close>: its one
  control carries the attribute \<^verbatim>\<open>disabled\<close> without a value.
\<close>

definition disabled_button :: tag where
  "disabled_button = \<lparr> tag_text = ''Register'', tag_class = [], tag_disabled = Some [] \<rparr>"

definition disabled_button_page :: page where
  "disabled_button_page = \<lparr> get_text = ''Register'', title_elem = None,
     select = (\<lambda>selector. if selector = ''button[data-spec=\"eds-button\"]'' then [disabled_button] else []),
     sold_out_elements = [] \<rparr>"


text \<open>The ticks and the trace of the loop, as one event sees them.\<close>

definition ticks_of :: "string \<Rightarrow> (real \<times> (string \<Rightarrow> env)) list \<Rightarrow> (real \<times> env) list" where
  "ticks_of event_url ticks = map (\<lambda>(current_time, world). (current_time, world event_url)) ticks"

definition outcomes_of :: "string \<Rightarrow> (string \<times> outcome) list list \<Rightarrow> outcome option list" where
  "outcomes_of event_url trace = map (\<lambda>outs. map_of outs event_url) trace"

definition was_checked :: "outcome \<Rightarrow> bool" where
  "was_checked out = (checked out \<noteq> None)"

text \<open>
  Sample answers of the world: a page that offers tickets with a gateway that creates
  the call \<open>CA1\<close> and reports it unanswered; a sold-out page with a gateway that reports
  the call completed.
\<close>

definition open_env :: env where
  "open_env = \<lparr> fetched = Inr (text_page ''Buy now''), clock = ''2025-01-01T00:00:00'',
     created = Inr ''CA1'', fetched_call = (\<lambda>sid. Inr NoAnswer) \<rparr>"

definition closed_env :: env where
  "closed_env = \<lparr> fetched = Inr (text_page ''Sold out''), clock = ''2025-01-01T00:30:00'',
     created = Inr ''CA2'', fetched_call = (\<lambda>sid. Inr Completed) \<rparr>"

text \<open>An event with a call placed at time 1000000 and not yet verified.\<close>

definition pending_config :: event_config where
  "pending_config = \<lparr> interval = 1800, last_check = 1000000, last_status = None, alert_sent = False,
     last_call_sid = Some ''CA1'', call_made_at = At 1000000 \<rparr>"

text \<open>An event whose dictionary holds a call sid but \<^verbatim>\<open>None\<close> as the time of the call.\<close>

definition broken_config :: event_config where
  "broken_config = \<lparr> interval = 1800, last_check = 0, last_status = None, alert_sent = False,
     last_call_sid = Some ''CA0'', call_made_at = PyNone \<rparr>"

definition two_events :: "(string \<times> event_config) list" where
  "two_events = add_event [(''a'', broken_config)] ''b'' 1800"

definition open_world :: "string \<Rightarrow> env" where
  "open_world event_url = open_env"

text \<open>A world in which the page of event \<open>a\<close> is sold out and every other page offers tickets.\<close>

definition mixed_world :: "string \<Rightarrow> env" where
  "mixed_world event_url = (if event_url = ''a'' then closed_env else open_env)"

text \<open>
  A page that still offers tickets, with a gateway that creates the call \<open>CA2\<close> and
  reports every call completed.
\<close>

definition answered_env :: env where
  "answered_env = \<lparr> fetched = Inr (text_page ''Buy now''), clock = ''2025-01-01T00:30:00'',
     created = Inr ''CA2'', fetched_call = (\<lambda>sid. Inr Completed) \<rparr>"

text \<open>
  The dictionary never holds a call sid together with \<^verbatim>\<open>None\<close> as the time of the call.
  \<^verbatim>\<open>add_event\<close> establishes this and the loop body keeps it: the two keys are assigned
  together.
\<close>

fun time_known :: "stamp \<Rightarrow> string option \<Rightarrow> bool" where
  "time_known PyNone (Some sid) = (sid = [])"
| "time_known made_at sid = True"

definition call_time_known :: "event_config \<Rightarrow> bool" where
  "call_time_known c = time_known (call_made_at c) (last_call_sid c)"

text \<open>
  The schedule in the words of the specification: a target is checked at a tick when
  \<open>now - lastCheckAt >= checkIntervalSeconds\<close>, and \<open>lastCheckAt\<close> becomes the time of
  that tick. The result is \<open>lastCheckAt\<close> after the ticks and, tick by tick, whether the
  target is checked.
\<close>

fun spec_schedule :: "int \<Rightarrow> real \<Rightarrow> real list \<Rightarrow> real \<times> bool list" where
  "spec_schedule check_interval last_check_at [] = (last_check_at, [])"
| "spec_schedule check_interval last_check_at (now # later) =
     (if real_of_int check_interval \<le> now - last_check_at
      then (let (l, due) = spec_schedule check_interval now later in (l, True # due))
      else (let (l, due) = spec_schedule check_interval last_check_at later in (l, False # due)))"

text \<open>Five ticks: the first, one a minute later, two around the half hour, one a minute after.\<close>

definition five_ticks :: "(real \<times> (string \<Rightarrow> env)) list" where
  "five_ticks = [(1000000, open_world), (1000060, open_world), (1001799, open_world),
     (1001800, open_world), (1001860, open_world)]"

section \<open>Substrings and patterns\<close>

lemma starts_with_iff: "starts_with sub s \<longleftrightarrow> (\<exists>post. s = sub @ post)"
proof (induction sub arbitrary: s)
  case Nil
  then show ?case by simp
next
  case (Cons c sub)
  then show ?case by (cases s) auto
qed

lemma py_in_iff: "py_in sub s \<longleftrightarrow> (\<exists>pre post. s = pre @ sub @ post)"
proof (induction s)
  case Nil
  then show ?case by auto
next
  case (Cons x xs)
  show ?case
  proof
    assume "py_in sub (x # xs)"
    then consider "starts_with sub (x # xs)" | "py_in sub xs" by auto
    then show "\<exists>pre post. x # xs = pre @ sub @ post"
    proof cases
      case 1
      then obtain post where "x # xs = sub @ post" by (auto simp: starts_with_iff)
      then have "x # xs = [] @ sub @ post" by simp
      then show ?thesis by blast
    next
      case 2
      then obtain pre post where "xs = pre @ sub @ post" using Cons.IH by auto
      then have "x # xs = (x # pre) @ sub @ post" by simp
      then show ?thesis by blast
    qed
  next
    assume "\<exists>pre post. x # xs = pre @ sub @ post"
    then obtain pre post where eq: "x # xs = pre @ sub @ post" by auto
    show "py_in sub (x # xs)"
    proof (cases pre)
      case Nil
      then have "starts_with sub (x # xs)" using eq by (auto simp: starts_with_iff)
      then show ?thesis by simp
    next
      case (Cons y ys)
      then have "xs = ys @ sub @ post" using eq by simp
      then have "py_in sub xs" using Cons.IH by blast
      then show ?thesis by simp
    qed
  qed
qed

lemma availability_patterns_phrases: "availability_patterns = map phrase_rx purchase_phrases"
  by (simp add: availability_patterns_def purchase_phrases_def phrase_rx_def lit_def)

lemma sold_out_patterns_phrases: "sold_out_patterns = map word_rx sold_out_phrases"
  by (simp add: sold_out_patterns_def sold_out_phrases_def word_rx_def)

lemma is_space_blank: "is_space CHR '' ''"
  by (simp add: is_space_def)

text \<open>A phrase written with single blanks is matched by its pattern with \<^verbatim>\<open>\s+\<close>.\<close>

lemma match_here_phrase: "starts_with ph s \<Longrightarrow> match_here True (phrase_rx ph) prev s"
proof (induction ph arbitrary: prev s)
  case Nil
  then show ?case by (simp add: phrase_rx_def)
next
  case (Cons c ph)
  then obtain xs where s: "s = c # xs" and rest: "starts_with ph xs"
    by (cases s) auto
  have "match_here True (phrase_rx ph) (Some c) xs"
    using Cons.IH rest by simp
  then show ?case
    using s by (auto simp: phrase_rx_def chr_eq_def is_space_blank)
qed

lemma search_from_phrase: "py_in ph s \<Longrightarrow> search_from True (phrase_rx ph) prev s"
proof (induction s arbitrary: prev)
  case Nil
  then show ?case by (simp add: phrase_rx_def)
next
  case (Cons x xs)
  then show ?case by (auto simp: match_here_phrase)
qed

lemma has_availability_text_contains: "contains_any purchase_phrases s \<Longrightarrow> has_availability_text s"
proof -
  assume "contains_any purchase_phrases s"
  then obtain ph where "ph \<in> set purchase_phrases" "py_in ph s"
    by (auto simp: contains_any_def list_ex_iff)
  then have "\<exists>ph \<in> set purchase_phrases. re_search True (phrase_rx ph) s"
    using search_from_phrase [of ph s None] by (auto simp: re_search_def)
  then show ?thesis
    by (simp add: has_availability_text_def availability_patterns_phrases list_ex_iff)
qed

text \<open>A pattern \<^verbatim>\<open>\bphrase\b\<close> matches exactly where the phrase stands as whole words.\<close>

lemma match_here_lit:
  "match_here False (lit ph @ r) prev s =
     (starts_with ph s \<and> match_here False r (if ph = [] then prev else Some (last ph)) (drop (length ph) s))"
proof (induction ph arbitrary: prev s)
  case Nil
  then show ?case by (simp add: lit_def)
next
  case (Cons c ph)
  show ?case
  proof (cases s)
    case Nil
    then show ?thesis by (simp add: lit_def)
  next
    case (Cons x xs)
    then show ?thesis
      using Cons.IH [of "Some x" xs] by (auto simp: lit_def chr_eq_def)
  qed
qed

lemma match_here_word_rx:
  assumes "ph \<noteq> []" "is_word (hd ph)" "is_word (last ph)"
  shows "match_here False (word_rx ph) prev s = occurs_at ph prev s"
proof (cases "starts_with ph s")
  case False
  then show ?thesis by (simp add: word_rx_def match_here_lit occurs_at_def)
next
  case True
  then obtain post where "s = ph @ post" by (auto simp: starts_with_iff)
  then have "next_char s = Some (hd ph)"
    using assms(1) by (cases ph) (auto simp: next_char_def)
  then show ?thesis
    using assms True by (auto simp: word_rx_def match_here_lit occurs_at_def word_opt_def)
qed

lemma search_from_word_rx:
  assumes "ph \<noteq> []" "is_word (hd ph)" "is_word (last ph)"
  shows "search_from False (word_rx ph) prev s = whole_from ph prev s"
  by (induction s arbitrary: prev) (simp_all add: match_here_word_rx [OF assms])

lemma sold_out_phrases_words:
  "list_all (\<lambda>ph. ph \<noteq> [] \<and> is_word (hd ph) \<and> is_word (last ph)) sold_out_phrases"
  by (simp add: sold_out_phrases_def is_word_def)

lemma is_sold_out_text_whole: "is_sold_out_text s = contains_whole sold_out_phrases s"
proof -
  have "\<And>ph. ph \<in> set sold_out_phrases \<Longrightarrow> re_search False (word_rx ph) s = whole_from ph None s"
    using sold_out_phrases_words by (simp add: list_all_iff re_search_def search_from_word_rx)
  then show ?thesis
    by (simp add: is_sold_out_text_def contains_whole_def sold_out_patterns_phrases list_ex_iff)
qed

section \<open>The classifier\<close>

lemma scan_buttons_eligible:
  "scan_buttons bs (n, av) = (n + length bs, av @ filter eligible bs)"
  by (induction bs arbitrary: n av) (simp_all add: eligible_def)

lemma scan_selectors_eligible:
  "scan_selectors sel sels (n, av) =
     (n + length (concat (map sel sels)), av @ filter eligible (concat (map sel sels)))"
  by (induction sels arbitrary: n av) (simp_all add: scan_buttons_eligible)

lemma classify_available:
  "available (classify pg event_url now) =
     ((has_availability_text (page_text pg) \<or> filter eligible (selected_buttons pg) \<noteq> [])
      \<and> \<not> ((is_sold_out_text (page_text pg) \<or> sold_out_elements pg \<noteq> [] \<or> has_zero_remaining (page_text pg))
           \<and> \<not> has_availability_text (page_text pg)))"
  by (auto simp: classify_def scan_selectors_eligible selected_buttons_def)

lemma classify_sold_out:
  "sold_out (classify pg event_url now) =
     Some ((is_sold_out_text (page_text pg) \<or> sold_out_elements pg \<noteq> [] \<or> has_zero_remaining (page_text pg))
           \<and> \<not> has_availability_text (page_text pg))"
  by (simp add: classify_def scan_selectors_eligible)

lemma classify_fields:
  "error (classify pg event_url now) = None"
  "sold_out_text_found (classify pg event_url now) = Some (is_sold_out_text (page_text pg))"
  "available_buttons (classify pg event_url now) = Some (length (filter eligible (selected_buttons pg)))"
  by (simp_all add: classify_def scan_selectors_eligible selected_buttons_def)

lemma text_page_simps:
  "page_text (text_page t) = py_lower t"
  "selected_buttons (text_page t) = []"
  "sold_out_elements (text_page t) = []"
  by (simp_all add: page_text_def text_page_def selected_buttons_def ticket_selectors_def)

lemma busy_page_text: "page_text busy_page = ''sold out! 0 remaining. get tickets''"
proof -
  have "py_lower ''Sold out! 0 remaining. Get Tickets'' = ''sold out! 0 remaining. get tickets''"
    by code_simp
  then show ?thesis by (simp add: page_text_def busy_page_def)
qed

lemma disabled_button_eligible: "\<not> is_disabled disabled_button \<and> eligible disabled_button"
  by code_simp

lemma disabled_button_page_simps:
  "page_text disabled_button_page = ''register''"
  "selected_buttons disabled_button_page = [disabled_button]"
  "sold_out_elements disabled_button_page = []"
proof -
  have "py_lower ''Register'' = ''register''"
    by code_simp
  then show "page_text disabled_button_page = ''register''"
    by (simp add: page_text_def disabled_button_page_def)
  show "selected_buttons disabled_button_page = [disabled_button]"
    by (simp add: selected_buttons_def disabled_button_page_def ticket_selectors_def)
  show "sold_out_elements disabled_button_page = []"
    by (simp add: disabled_button_page_def)
qed

lemma register_text:
  "\<not> has_availability_text ''register''"
  "\<not> contains_whole sold_out_phrases ''register''"
  "\<not> has_zero_remaining ''register''"
  by code_simp+

text \<open>A control counts exactly when its text has a ticket word and \<open>is_disabled\<close> is false;
  controls that do not count leave the verdict to the text.\<close>

lemma no_eligible_control_unavailable:
  assumes "\<forall>b \<in> set (selected_buttons pg). \<not> eligible b"
    and "\<not> has_availability_text (page_text pg)"
  shows "\<not> available (check_event_availability (Inr pg) event_url now)"
proof -
  have "filter eligible (selected_buttons pg) = []"
    using assms(1) by (simp add: filter_empty_conv)
  then show ?thesis
    using assms(2) by (simp add: check_event_availability_def classify_available)
qed

text \<open>
  Claim C2. A page text that contains a purchase-intent phrase is classified as
  available, whatever sold-out phrase, sold-out element or "0 remaining" pattern the
  page shows besides, and whatever its controls.
\<close>

theorem purchase_phrase_available:
  "contains_any purchase_phrases (page_text pg) \<Longrightarrow>
     available (check_event_availability (Inr pg) event_url now)"
  by (simp add: check_event_availability_def classify_available has_availability_text_contains)

theorem purchase_phrase_available_witness:
  "contains_any purchase_phrases (page_text busy_page)
   \<and> available (check_event_availability (Inr busy_page) ''u'' ''n'')"
proof -
  have "contains_any purchase_phrases ''sold out! 0 remaining. get tickets''"
    by code_simp
  then have h: "contains_any purchase_phrases (page_text busy_page)"
    by (simp add: busy_page_text)
  show ?thesis
    by (rule conjI [OF h purchase_phrase_available [OF h]])
qed

text \<open>
  Claim C3, as stated, fails in two ways. The text "Presales ended" contains the
  sold-out phrase "sales ended" and no purchase-intent phrase, and no control is
  eligible, yet no sold-out signal is raised, because the pattern is \<^verbatim>\<open>\bsales ended\b\<close>.
  The text "Sold out. Get  tickets" (two blanks) contains a sold-out phrase and none of
  the purchase-intent phrases, yet it is classified as available, because the pattern
  is \<^verbatim>\<open>get\s+tickets\<close>.
\<close>

theorem sold_out_substring_counterexample:
  "contains_any sold_out_phrases (page_text (text_page ''Presales ended''))
   \<and> \<not> contains_any purchase_phrases (page_text (text_page ''Presales ended''))
   \<and> available_buttons (check_event_availability (Inr (text_page ''Presales ended'')) ''u'' ''n'') = Some 0
   \<and> sold_out (check_event_availability (Inr (text_page ''Presales ended'')) ''u'' ''n'') = Some False
   \<and> sold_out_text_found (check_event_availability (Inr (text_page ''Presales ended'')) ''u'' ''n'') = Some False
   \<and> contains_any sold_out_phrases (page_text (text_page ''Sold out. Get  tickets''))
   \<and> \<not> contains_any purchase_phrases (page_text (text_page ''Sold out. Get  tickets''))
   \<and> available_buttons (check_event_availability (Inr (text_page ''Sold out. Get  tickets'')) ''u'' ''n'') = Some 0
   \<and> available (check_event_availability (Inr (text_page ''Sold out. Get  tickets'')) ''u'' ''n'')"
proof -
  have t: "py_lower ''Presales ended'' = ''presales ended''"
    by code_simp
  have a: "contains_any sold_out_phrases ''presales ended''"
    by code_simp
  have b: "\<not> contains_any purchase_phrases ''presales ended''"
    by code_simp
  have c: "\<not> contains_whole sold_out_phrases ''presales ended''"
    by code_simp
  have d: "\<not> has_availability_text ''presales ended''"
    by code_simp
  have e: "\<not> has_zero_remaining ''presales ended''"
    by code_simp
  have t': "py_lower ''Sold out. Get  tickets'' = ''sold out. get  tickets''"
    by code_simp
  have a': "contains_any sold_out_phrases ''sold out. get  tickets''"
    by code_simp
  have b': "\<not> contains_any purchase_phrases ''sold out. get  tickets''"
    by code_simp
  have d': "has_availability_text ''sold out. get  tickets''"
    by code_simp
  show ?thesis
    by (simp add: check_event_availability_def classify_available classify_sold_out classify_fields
        text_page_simps is_sold_out_text_whole t a b c d e t' a' b' d')
qed

text \<open>
  Claim C3, amended. When a sold-out phrase occurs in the page text as whole words
  (no word character right before or after it) and no purchase-intent pattern matches
  (the words of the phrase separated by runs of whitespace), then, whatever the
  controls, the page is not available and the sold-out flags are set.
\<close>

theorem sold_out_words_unavailable:
  "contains_whole sold_out_phrases (page_text pg) \<Longrightarrow> \<not> has_availability_text (page_text pg) \<Longrightarrow>
     \<not> available (check_event_availability (Inr pg) event_url now)
     \<and> sold_out (check_event_availability (Inr pg) event_url now) = Some True
     \<and> sold_out_text_found (check_event_availability (Inr pg) event_url now) = Some True"
  by (simp add: check_event_availability_def classify_available classify_sold_out classify_fields
      is_sold_out_text_whole)

theorem sold_out_words_unavailable_witness:
  "contains_whole sold_out_phrases (page_text (text_page ''Sold Out - registration closed''))
   \<and> \<not> has_availability_text (page_text (text_page ''Sold Out - registration closed''))
   \<and> \<not> available (check_event_availability (Inr (text_page ''Sold Out - registration closed'')) ''u'' ''n'')
   \<and> sold_out (check_event_availability (Inr (text_page ''Sold Out - registration closed'')) ''u'' ''n'') = Some True
   \<and> sold_out_text_found (check_event_availability (Inr (text_page ''Sold Out - registration closed'')) ''u'' ''n'') = Some True"
proof -
  have t: "py_lower ''Sold Out - registration closed'' = ''sold out - registration closed''"
    by code_simp
  have "contains_whole sold_out_phrases ''sold out - registration closed''"
    by code_simp
  then have h1: "contains_whole sold_out_phrases (page_text (text_page ''Sold Out - registration closed''))"
    by (simp add: text_page_simps t)
  have "\<not> has_availability_text ''sold out - registration closed''"
    by code_simp
  then have h2: "\<not> has_availability_text (page_text (text_page ''Sold Out - registration closed''))"
    by (simp add: text_page_simps t)
  show ?thesis
    by (rule conjI [OF h1 conjI [OF h2 sold_out_words_unavailable [OF h1 h2]]])
qed

text \<open>
  Claim C4 at the control \<^verbatim>\<open><button data-spec="eds-button" disabled>Register</button>\<close>:
  the control is marked disabled by its attribute, whose value is the empty string;
  the test \<^verbatim>\<open>button.get('disabled') or ...\<close> takes the empty string for false, so the
  control counts as an available button and the page is reported available.
\<close>

theorem disabled_attribute_ignored:
  "tag_disabled disabled_button = Some []
   \<and> \<not> is_disabled disabled_button
   \<and> eligible disabled_button
   \<and> \<not> has_availability_text (page_text disabled_button_page)
   \<and> available_buttons (check_event_availability (Inr disabled_button_page) ''u'' ''n'') = Some 1
   \<and> available (check_event_availability (Inr disabled_button_page) ''u'' ''n'')"
proof -
  have attr: "tag_disabled disabled_button = Some []"
    by (simp add: disabled_button_def)
  have "\<not> is_disabled disabled_button
   \<and> eligible disabled_button
   \<and> \<not> has_availability_text (page_text disabled_button_page)
   \<and> available_buttons (check_event_availability (Inr disabled_button_page) ''u'' ''n'') = Some 1
   \<and> available (check_event_availability (Inr disabled_button_page) ''u'' ''n'')"
    by (simp add: check_event_availability_def classify_available classify_fields
        disabled_button_page_simps register_text is_sold_out_text_whole disabled_button_eligible)
  then show ?thesis
    by (rule conjI [OF attr])
qed

text \<open>
  Claim C6. The check returns a status for every outcome of fetching and parsing:
  the outcome is an exception of the class \<^verbatim>\<open>RequestException\<close>, another exception, or a
  page. In the first case the status has the title "Error - Network Issue", in the second
  "Error - Parse Issue", both with \<^verbatim>\<open>available\<close> false and the error set; in the third it
  is the classification of the page.
\<close>

theorem check_returns_status:
  "((\<exists>e. got = Inl (RequestException e)) \<or> (\<exists>e. got = Inl (OtherException e)) \<or> (\<exists>pg. got = Inr pg))
   \<and> (got = Inl (RequestException e) \<longrightarrow>
        title (check_event_availability got event_url now) = ''Error - Network Issue''
        \<and> \<not> available (check_event_availability got event_url now)
        \<and> error (check_event_availability got event_url now) = Some e)
   \<and> (got = Inl (OtherException e) \<longrightarrow>
        title (check_event_availability got event_url now) = ''Error - Parse Issue''
        \<and> \<not> available (check_event_availability got event_url now)
        \<and> error (check_event_availability got event_url now) = Some e)
   \<and> (got = Inr pg \<longrightarrow>
        check_event_availability got event_url now = classify pg event_url now
        \<and> error (check_event_availability got event_url now) = None)"
proof -
  have "(\<exists>e. got = Inl (RequestException e)) \<or> (\<exists>e. got = Inl (OtherException e)) \<or> (\<exists>pg. got = Inr pg)"
  proof (cases got)
    case (Inl ex)
    then show ?thesis by (cases ex) simp_all
  next
    case (Inr pg)
    then show ?thesis by simp
  qed
  then show ?thesis
    by (simp add: check_event_availability_def classify_fields)
qed

theorem check_returns_status_witness:
  "title (check_event_availability (Inl (RequestException ''timed out'')) ''u'' ''n'') = ''Error - Network Issue''
   \<and> \<not> available (check_event_availability (Inl (RequestException ''timed out'')) ''u'' ''n'')
   \<and> error (check_event_availability (Inl (RequestException ''timed out'')) ''u'' ''n'') = Some ''timed out''"
  using check_returns_status [of "Inl (RequestException ''timed out'')" "''timed out''" "''u''" "''n''"]
  by simp

text \<open>
  Claim C7, as stated, fails: the status returned for a failed fetch has no signal
  fields at all, so \<^verbatim>\<open>sold_out\<close> is not false there, it is absent.
\<close>

theorem error_status_signals_counterexample:
  "error (check_event_availability (Inl (RequestException ''timed out'')) ''u'' ''n'') = Some ''timed out''
   \<and> sold_out (check_event_availability (Inl (RequestException ''timed out'')) ''u'' ''n'') \<noteq> Some False
   \<and> availability_text_found (check_event_availability (Inl (RequestException ''timed out'')) ''u'' ''n'') \<noteq> Some False"
  by (simp add: check_event_availability_def)

text \<open>
  Claim C7, amended. In every status with the error field present, \<^verbatim>\<open>available\<close> is
  false and every signal field is absent (so none is true).
\<close>

theorem error_status_no_signals:
  "error (check_event_availability got event_url now) \<noteq> None \<Longrightarrow>
     \<not> available (check_event_availability got event_url now)
     \<and> sold_out (check_event_availability got event_url now) = None
     \<and> total_buttons_found (check_event_availability got event_url now) = None
     \<and> available_buttons (check_event_availability got event_url now) = None
     \<and> sold_out_text_found (check_event_availability got event_url now) = None
     \<and> sold_out_elements_found (check_event_availability got event_url now) = None
     \<and> zero_remaining_found (check_event_availability got event_url now) = None
     \<and> availability_text_found (check_event_availability got event_url now) = None"
proof (cases got)
  case (Inl ex)
  then show ?thesis by (cases ex) (simp_all add: check_event_availability_def)
next
  case (Inr pg)
  assume "error (check_event_availability got event_url now) \<noteq> None"
  then show ?thesis using Inr by (simp add: check_event_availability_def classify_fields)
qed

theorem error_status_no_signals_witness:
  "error (check_event_availability (Inl (OtherException ''boom'')) ''u'' ''n'') \<noteq> None
   \<and> \<not> available (check_event_availability (Inl (OtherException ''boom'')) ''u'' ''n'')
   \<and> sold_out (check_event_availability (Inl (OtherException ''boom'')) ''u'' ''n'') = None
   \<and> availability_text_found (check_event_availability (Inl (OtherException ''boom'')) ''u'' ''n'') = None"
proof -
  have h: "error (check_event_availability (Inl (OtherException ''boom'')) ''u'' ''n'') \<noteq> None"
    by (simp add: check_event_availability_def)
  show ?thesis
    using h error_status_no_signals [OF h] by simp
qed

text \<open>
  Claim C10. In a status without error, \<^verbatim>\<open>available\<close> and \<^verbatim>\<open>sold_out\<close> are never both
  true: an available status has \<^verbatim>\<open>sold_out\<close> false.
\<close>

theorem available_not_sold_out:
  "error (check_event_availability got event_url now) = None \<Longrightarrow>
   available (check_event_availability got event_url now) \<Longrightarrow>
     sold_out (check_event_availability got event_url now) = Some False"
proof (cases got)
  case (Inl ex)
  assume "error (check_event_availability got event_url now) = None"
  then show ?thesis using Inl by (cases ex) (simp_all add: check_event_availability_def)
next
  case (Inr pg)
  assume "available (check_event_availability got event_url now)"
  then show ?thesis
    using Inr by (auto simp: check_event_availability_def classify_available classify_sold_out)
qed

theorem available_not_sold_out_witness:
  "error (check_event_availability (Inr disabled_button_page) ''u'' ''n'') = None
   \<and> available (check_event_availability (Inr disabled_button_page) ''u'' ''n'')
   \<and> sold_out (check_event_availability (Inr disabled_button_page) ''u'' ''n'') = Some False"
proof -
  have h1: "error (check_event_availability (Inr disabled_button_page) ''u'' ''n'') = None"
    by (simp add: check_event_availability_def classify_fields)
  have h2: "available (check_event_availability (Inr disabled_button_page) ''u'' ''n'')"
    by (simp add: check_event_availability_def classify_available disabled_button_page_simps
        register_text is_sold_out_text_whole disabled_button_eligible)
  show ?thesis
    by (rule conjI [OF h1 conjI [OF h2 available_not_sold_out [OF h1 h2]]])
qed

section \<open>The escalation of one event\<close>

lemma check_call_answered_iff:
  "check_call_answered e sid = (fetched_call e sid = Inr Completed \<or> fetched_call e sid = Inr InProgress)"
  by (auto simp: check_call_answered_def split: sum.splits)

lemma trigger_suppressed: "alert_sent c \<Longrightarrow> trigger t e st c = (c, False, None)"
  by (simp add: trigger_def)

lemma trigger_keeps:
  "interval (fst (trigger t e st c)) = interval c"
  "last_check (fst (trigger t e st c)) = last_check c"
  "alert_sent (fst (trigger t e st c)) = alert_sent c"
  by (simp_all add: trigger_def split: option.splits)

text \<open>A suppressed event stays suppressed, and \<^verbatim>\<open>make_alert_call\<close> is not called for it.\<close>

lemma process_event_suppressed:
  assumes "alert_sent c"
  shows "alert_sent (fst (process_event t e u c))"
    and "\<not> call_attempted (snd (process_event t e u c))"
    and "call_placed (snd (process_event t e u c)) = None"
  using assms
  by (simp_all add: process_event_def trigger_suppressed Let_def split: sum.splits option.splits)

lemma run_event_suppressed:
  "alert_sent c \<Longrightarrow>
     alert_sent (fst (run_event ticks u c))
     \<and> (\<forall>out \<in> set (snd (run_event ticks u c)). \<not> call_attempted out \<and> call_placed out = None)"
proof (induction ticks arbitrary: c)
  case Nil
  then show ?case by simp
next
  case (Cons tick ticks)
  obtain t e where tick: "tick = (t, e)" by (cases tick)
  have "alert_sent (fst (process_event t e u c))"
    using Cons.prems by (rule process_event_suppressed)
  then have "alert_sent (fst (run_event ticks u (fst (process_event t e u c))))
     \<and> (\<forall>out \<in> set (snd (run_event ticks u (fst (process_event t e u c)))).
           \<not> call_attempted out \<and> call_placed out = None)"
    by (rule Cons.IH)
  then show ?case
    using tick process_event_suppressed(2,3) [OF Cons.prems, of t e u]
    by (simp add: split_beta)
qed

lemma process_event_answered:
  "answered (snd (process_event t e u c)) = Some True \<Longrightarrow> alert_sent (fst (process_event t e u c))"
  by (auto simp: process_event_def Let_def split_beta split: if_splits sum.splits option.splits)

text \<open>
  When \<^verbatim>\<open>check_call_answered\<close> is called at all, the event holds a call sid, more than
  120 seconds have passed since the time recorded for it (since 0 when none is recorded),
  and the result says whether the gateway reports that call completed or in progress.
\<close>

lemma process_event_verifies:
  assumes "answered (snd (process_event t e u c)) = Some b"
  shows "\<exists>sid c1. c1 = fst (trigger t e (check_event_availability (fetched e) u (clock e)) c)
           \<and> last_call_sid c1 = Some sid \<and> sid \<noteq> []
           \<and> (call_made_at c1 = Absent \<and> 120 < t \<or> (\<exists>t0. call_made_at c1 = At t0 \<and> 120 < t - t0))
           \<and> b = (fetched_call e sid = Inr Completed \<or> fetched_call e sid = Inr InProgress)"
  using assms
  by (auto simp: process_event_def verify_due_def truthy_def check_call_answered_iff Let_def split_beta
      split: if_splits sum.splits option.splits stamp.splits)

text \<open>The trigger from the idle state: the call reference and the time of the tick are recorded.\<close>

lemma process_event_records_call:
  assumes "real_of_int (interval c) \<le> t - last_check c"
    and "\<not> alert_sent c"
    and "available (check_event_availability (fetched e) u (clock e))"
    and "created e = Inr sid" and "sid \<noteq> []"
  shows "last_call_sid (fst (process_event t e u c)) = Some sid"
    and "call_made_at (fst (process_event t e u c)) = At t"
    and "last_check (fst (process_event t e u c)) = t"
    and "\<not> alert_sent (fst (process_event t e u c))"
    and "call_placed (snd (process_event t e u c)) = Some sid"
  using assms
  by (simp_all add: process_event_def trigger_def make_alert_call_def verify_due_def truthy_def Let_def)

text \<open>
  Two calls of one event are at least its check interval apart: with an interval of 120
  seconds or more, no call is attempted before 120 seconds after the last check.
\<close>

lemma process_event_interval: "interval (fst (process_event t e u c)) = interval c"
  by (simp add: process_event_def trigger_keeps Let_def split_beta split: sum.splits option.splits)

lemma process_event_last_check:
  "0 \<le> interval c \<Longrightarrow> last_check c \<le> last_check (fst (process_event t e u c))"
  by (simp add: process_event_def trigger_keeps Let_def split_beta split: sum.splits option.splits)

lemma process_event_not_due:
  "t - last_check c < real_of_int (interval c) \<Longrightarrow>
     process_event t e u c =
       (c, \<lparr> checked = None, call_attempted = False, call_placed = None, answered = None, raised = None \<rparr>)"
  by (simp add: process_event_def)

lemma run_event_length: "length (snd (run_event ticks u c)) = length ticks"
  by (induction ticks arbitrary: c) (auto simp: split_beta)

lemma run_event_call_spacing:
  assumes "120 \<le> interval c" and "t1 \<le> last_check c"
  shows "\<forall>(t, out) \<in> set (zip (map fst ticks) (snd (run_event ticks u c))).
           call_attempted out \<longrightarrow> t1 + 120 \<le> t"
  using assms
proof (induction ticks arbitrary: c)
  case Nil
  then show ?case by simp
next
  case (Cons tick ticks)
  obtain t e where tick: "tick = (t, e)" by (cases tick)
  let ?c1 = "fst (process_event t e u c)"
  have "120 \<le> interval ?c1"
    using Cons.prems(1) by (simp add: process_event_interval)
  moreover have "t1 \<le> last_check ?c1"
    using Cons.prems process_event_last_check [of c t e u] by simp
  ultimately have rest: "\<forall>(t, out) \<in> set (zip (map fst ticks) (snd (run_event ticks u ?c1))).
           call_attempted out \<longrightarrow> t1 + 120 \<le> t"
    by (rule Cons.IH)
  have first: "call_attempted (snd (process_event t e u c)) \<longrightarrow> t1 + 120 \<le> t"
  proof (cases "t - last_check c < real_of_int (interval c)")
    case True
    then show ?thesis by (simp add: process_event_not_due)
  next
    case False
    then show ?thesis using Cons.prems by simp
  qed
  show ?case
    using tick first rest by (simp add: split_beta)
qed

lemma open_page_available: "available (check_event_availability (Inr (text_page ''Buy now'')) u n)"
proof -
  have t: "py_lower ''Buy now'' = ''buy now''"
    by code_simp
  have "contains_any purchase_phrases ''buy now''"
    by code_simp
  then show ?thesis
    by (simp add: check_event_availability_def classify_available text_page_simps t
        has_availability_text_contains)
qed

lemma closed_page_unavailable: "\<not> available (check_event_availability (Inr (text_page ''Sold out'')) u n)"
proof -
  have t: "py_lower ''Sold out'' = ''sold out''"
    by code_simp
  have "\<not> has_availability_text ''sold out''" "contains_whole sold_out_phrases ''sold out''"
    by code_simp+
  then show ?thesis
    by (simp add: check_event_availability_def classify_available text_page_simps t
        is_sold_out_text_whole)
qed

text \<open>
  Claim C1 on an event registered with a check interval of 60 seconds, at two ticks 70
  seconds apart, the page offering tickets and the gateway creating the call both
  times. The first tick finds the event idle, places a call and records its sid and
  time. The second tick places a second call, 70 seconds after the first: the trigger
  of line 308 tests \<^verbatim>\<open>alert_sent\<close> only, not whether a call is pending.
\<close>

theorem second_call_before_120_seconds:
  "last_call_sid (new_event_config 60) = None
   \<and> \<not> alert_sent (new_event_config 60)
   \<and> last_call_sid (fst (process_event 1000000 open_env ''u'' (new_event_config 60))) = Some ''CA1''
   \<and> call_made_at (fst (process_event 1000000 open_env ''u'' (new_event_config 60))) = At 1000000
   \<and> map call_placed (snd (run_event [(1000000, open_env), (1000070, open_env)] ''u'' (new_event_config 60)))
       = [Some ''CA1'', Some ''CA1'']"
  by (simp add: process_event_def new_event_config_def open_env_def trigger_def verify_due_def
      make_alert_call_def truthy_def open_page_available Let_def)

text \<open>
  When a verification does take place and observes an answered call (the gateway
  reports it completed or in progress), the event is suppressed, it stays suppressed at
  every later tick, and no call is attempted for it at any later tick.
\<close>

lemma verified_answer_suppresses:
  "answered (snd (process_event t e u c)) = Some True \<Longrightarrow>
     alert_sent (fst (process_event t e u c))
     \<and> alert_sent (fst (run_event ticks u (fst (process_event t e u c))))
     \<and> (\<forall>out \<in> set (snd (run_event ticks u (fst (process_event t e u c)))).
           \<not> call_attempted out \<and> call_placed out = None)"
  using process_event_answered [of t e u c]
    run_event_suppressed [of "fst (process_event t e u c)" ticks u]
  by simp

lemma verified_answer_suppresses_example:
  "answered (snd (process_event 1001800 closed_env ''u'' pending_config)) = Some True
   \<and> alert_sent (fst (process_event 1001800 closed_env ''u'' pending_config))
   \<and> alert_sent (fst (run_event [(1003600, open_env)] ''u''
        (fst (process_event 1001800 closed_env ''u'' pending_config))))
   \<and> map call_attempted (snd (run_event [(1003600, open_env)] ''u''
        (fst (process_event 1001800 closed_env ''u'' pending_config)))) = [False]
   \<and> map call_placed (snd (run_event [(1003600, open_env)] ''u''
        (fst (process_event 1001800 closed_env ''u'' pending_config)))) = [None]"
proof -
  let ?c = "fst (process_event 1001800 closed_env ''u'' pending_config)"
  let ?outs = "snd (run_event [(1003600, open_env)] ''u'' ?c)"
  have h: "answered (snd (process_event 1001800 closed_env ''u'' pending_config)) = Some True"
    by (simp add: process_event_def pending_config_def closed_env_def trigger_def verify_due_def
        check_call_answered_def truthy_def closed_page_unavailable Let_def)
  have "length ?outs = 1"
    by (simp only: run_event_length) simp
  then obtain out where outs: "?outs = [out]"
    by (auto simp only: length_Suc_conv One_nat_def length_0_conv)
  have "\<not> call_attempted out \<and> call_placed out = None"
    using verified_answer_suppresses [OF h, of "[(1003600, open_env)]"]
    by (simp only: outs) simp
  then have "map call_attempted ?outs = [False] \<and> map call_placed ?outs = [None]"
    by (simp only: outs) simp
  then show ?thesis
    using h verified_answer_suppresses [OF h, of "[(1003600, open_env)]"]
    by blast
qed

text \<open>
  Claim C5 at an event whose call \<open>CA1\<close> was placed 1800 seconds before the tick, the
  page still offering tickets and the gateway reporting the call completed. The trigger
  of line 308 runs first: it places the new call \<open>CA2\<close> and records the time of the tick
  for it, so the condition of line 319 is false and \<^verbatim>\<open>check_call_answered\<close> is not
  called. The answered call is never observed, the event is not suppressed, and the next
  tick places yet another call.
\<close>

theorem answered_call_not_observed:
  "last_call_sid pending_config = Some ''CA1''
   \<and> call_made_at pending_config = At 1000000
   \<and> \<not> alert_sent pending_config
   \<and> (120::real) < 1001800 - 1000000
   \<and> check_call_answered answered_env ''CA1''
   \<and> answered (snd (process_event 1001800 answered_env ''u'' pending_config)) = None
   \<and> \<not> alert_sent (fst (process_event 1001800 answered_env ''u'' pending_config))
   \<and> map call_placed (snd (run_event [(1001800, answered_env), (1003600, answered_env)] ''u'' pending_config))
       = [Some ''CA2'', Some ''CA2'']
   \<and> \<not> alert_sent (fst (run_event [(1001800, answered_env), (1003600, answered_env)] ''u'' pending_config))"
  by (simp add: process_event_def pending_config_def answered_env_def trigger_def verify_due_def
      make_alert_call_def check_call_answered_def truthy_def open_page_available Let_def)

section \<open>The loop over the registry\<close>

text \<open>The keys of the registry stay distinct, as those of a dictionary are.\<close>

lemma dict_set_keys: "set (map fst (dict_set k v kvs)) = insert k (set (map fst kvs))"
proof (induction kvs)
  case Nil
  then show ?case by simp
next
  case (Cons kv kvs)
  obtain k' v' where kv: "kv = (k', v')" by (cases kv)
  show ?case
    using Cons.IH kv by (cases "k' = k") auto
qed

lemma dict_set_distinct: "distinct (map fst kvs) \<Longrightarrow> distinct (map fst (dict_set k v kvs))"
proof (induction kvs)
  case Nil
  then show ?case by simp
next
  case (Cons kv kvs)
  obtain k' v' where kv: "kv = (k', v')" by (cases kv)
  show ?case
  proof (cases "k' = k")
    case True
    then show ?thesis using Cons.prems kv by simp
  next
    case False
    have "k' \<notin> set (map fst (dict_set k v kvs))"
      using Cons.prems kv False by (simp only: dict_set_keys) auto
    then show ?thesis using Cons kv False by simp
  qed
qed

lemma add_event_distinct:
  "distinct (map fst reg) \<Longrightarrow> distinct (map fst (add_event reg event_url check_interval))"
  by (simp add: add_event_def dict_set_distinct)

lemma for_events_keys:
  "map fst (fst (for_events t w reg)) = map fst reg"
  "map fst (snd (for_events t w reg)) = map fst reg"
  by (induction reg) (auto simp: split_beta)

lemma for_events_lookup:
  assumes "distinct (map fst reg)" and "(u, c) \<in> set reg"
  shows "map_of (fst (for_events t w reg)) u = Some (fst (process_event t (w u) u c))"
    and "map_of (snd (for_events t w reg)) u = Some (snd (process_event t (w u) u c))"
  using assms
  by (induction reg) (auto simp: split_beta rev_image_eqI)

lemma for_events_member:
  assumes "distinct (map fst reg)" and "(u, c) \<in> set reg"
  shows "(u, fst (process_event t (w u) u c)) \<in> set (fst (for_events t w reg))"
  using for_events_lookup(1) [OF assms] by (rule map_of_SomeD)

lemma monitor_events_lookup:
  assumes "distinct (map fst reg)" and "(u, c) \<in> set reg"
  shows "map_of (fst (monitor_events ticks reg)) u = Some (fst (run_event (ticks_of u ticks) u c))
     \<and> outcomes_of u (snd (monitor_events ticks reg)) = map Some (snd (run_event (ticks_of u ticks) u c))"
  using assms
proof (induction ticks arbitrary: reg c)
  case Nil
  then show ?case by (simp add: ticks_of_def outcomes_of_def)
next
  case (Cons tick ticks)
  obtain t w where tick: "tick = (t, w)" by (cases tick)
  let ?reg1 = "fst (for_events t w reg)"
  let ?c1 = "fst (process_event t (w u) u c)"
  have "distinct (map fst ?reg1)"
    using Cons.prems(1) by (simp add: for_events_keys)
  moreover have "(u, ?c1) \<in> set ?reg1"
    using Cons.prems by (rule for_events_member)
  ultimately have rest:
    "map_of (fst (monitor_events ticks ?reg1)) u = Some (fst (run_event (ticks_of u ticks) u ?c1))
     \<and> outcomes_of u (snd (monitor_events ticks ?reg1)) = map Some (snd (run_event (ticks_of u ticks) u ?c1))"
    by (rule Cons.IH)
  have out: "map_of (snd (for_events t w reg)) u = Some (snd (process_event t (w u) u c))"
    using Cons.prems by (rule for_events_lookup)
  show ?case
    using tick rest out by (simp add: ticks_of_def outcomes_of_def split_beta)
qed

lemma monitor_events_length: "length (snd (monitor_events ticks reg)) = length ticks"
  by (induction ticks arbitrary: reg) (auto simp: split_beta)

text \<open>Whether an event is checked at one tick: the guard of line 302.\<close>

lemma checked_at_tick:
  assumes "distinct (map fst reg)" and "(u, c) \<in> set reg"
  shows "map_option was_checked (map_of (snd (for_events t w reg)) u)
           = Some (real_of_int (interval c) \<le> t - last_check c)"
  by (simp add: for_events_lookup(2) [OF assms] was_checked_def process_event_def Let_def
      split_beta split: sum.splits option.splits)

text \<open>
  With the time of its call known, an event raises nothing in the loop body, and a check
  records the time of its tick in \<^verbatim>\<open>last_check\<close> (lines 331-333).
\<close>

lemma trigger_known: "call_time_known c \<Longrightarrow> call_time_known (fst (trigger t e st c))"
  by (simp add: trigger_def call_time_known_def split: option.splits)

lemma verify_due_known: "call_time_known c \<Longrightarrow> \<exists>r. verify_due t c = Inr r"
  by (cases "call_made_at c"; cases "last_call_sid c")
    (simp_all add: verify_due_def call_time_known_def truthy_def)

lemma process_event_due:
  assumes "real_of_int (interval c) \<le> t - last_check c"
    and "verify_due t (fst (trigger t e (check_event_availability (fetched e) u (clock e)) c)) = Inr r"
  shows "checked (snd (process_event t e u c)) = Some (check_event_availability (fetched e) u (clock e))"
    and "raised (snd (process_event t e u c)) = None"
    and "last_check (fst (process_event t e u c)) = t"
    and "call_made_at (fst (process_event t e u c)) =
           (case r of None \<Rightarrow> call_made_at (fst (trigger t e (check_event_availability (fetched e) u (clock e)) c))
            | Some sid \<Rightarrow> if check_call_answered e sid
                then call_made_at (fst (trigger t e (check_event_availability (fetched e) u (clock e)) c))
                else PyNone)"
    and "last_call_sid (fst (process_event t e u c)) =
           (case r of None \<Rightarrow> last_call_sid (fst (trigger t e (check_event_availability (fetched e) u (clock e)) c))
            | Some sid \<Rightarrow> if check_call_answered e sid
                then last_call_sid (fst (trigger t e (check_event_availability (fetched e) u (clock e)) c))
                else None)"
  using assms by (cases r; simp add: process_event_def Let_def split_beta)+
lemma new_event_config_known: "call_time_known (new_event_config i)"
  by (simp add: call_time_known_def new_event_config_def)

lemma process_event_step:
  assumes "call_time_known c"
  shows "was_checked (snd (process_event t e u c)) = (real_of_int (interval c) \<le> t - last_check c)"
    and "last_check (fst (process_event t e u c)) =
           (if real_of_int (interval c) \<le> t - last_check c then t else last_check c)"
    and "call_time_known (fst (process_event t e u c))"
    and "raised (snd (process_event t e u c)) = None"
proof -
  let ?c1 = "fst (trigger t e (check_event_availability (fetched e) u (clock e)) c)"
  have known: "call_time_known ?c1"
    using assms by (rule trigger_known)
  then obtain r where r: "verify_due t ?c1 = Inr r"
    using verify_due_known by blast
  have all: "was_checked (snd (process_event t e u c)) = (real_of_int (interval c) \<le> t - last_check c)
    \<and> last_check (fst (process_event t e u c)) =
           (if real_of_int (interval c) \<le> t - last_check c then t else last_check c)
    \<and> call_time_known (fst (process_event t e u c))
    \<and> raised (snd (process_event t e u c)) = None"
  proof (cases "real_of_int (interval c) \<le> t - last_check c")
    case False
    then have "process_event t e u c =
       (c, \<lparr> checked = None, call_attempted = False, call_placed = None, answered = None, raised = None \<rparr>)"
      by (simp add: process_event_not_due)
    then show ?thesis
      using False assms by (simp add: was_checked_def)
  next
    case True
    note due = process_event_due [OF True r]
    have "call_time_known (fst (process_event t e u c))"
    proof (cases r)
      case None
      then show ?thesis
        using known by (simp add: call_time_known_def due(4,5))
    next
      case (Some sid)
      then show ?thesis
        using known by (simp add: call_time_known_def due(4,5))
    qed
    then show ?thesis
      using True by (simp add: was_checked_def due(1,2,3))
  qed
  from all show "was_checked (snd (process_event t e u c)) = (real_of_int (interval c) \<le> t - last_check c)"
    by (rule conjunct1)
  from all show "last_check (fst (process_event t e u c)) =
           (if real_of_int (interval c) \<le> t - last_check c then t else last_check c)"
    by (rule conjunct1 [OF conjunct2])
  from all show "call_time_known (fst (process_event t e u c))"
    by (rule conjunct1 [OF conjunct2 [OF conjunct2]])
  from all show "raised (snd (process_event t e u c)) = None"
    by (rule conjunct2 [OF conjunct2 [OF conjunct2]])
qed

lemma map_option_Some: "map (map_option f) (map Some xs) = map Some (map f xs)"
  by (induction xs) simp_all

lemma run_event_schedule:
  assumes "call_time_known c"
  shows "last_check (fst (run_event ticks u c))
           = fst (spec_schedule (interval c) (last_check c) (map fst ticks))
     \<and> map was_checked (snd (run_event ticks u c))
           = snd (spec_schedule (interval c) (last_check c) (map fst ticks))"
  using assms
proof (induction ticks arbitrary: c)
  case Nil
  then show ?case by simp
next
  case (Cons tick ticks)
  obtain t e where tick: "tick = (t, e)" by (cases tick)
  let ?c1 = "fst (process_event t e u c)"
  have known: "call_time_known ?c1"
    using Cons.prems by (rule process_event_step(3))
  have rest: "last_check (fst (run_event ticks u ?c1))
           = fst (spec_schedule (interval c) (last_check ?c1) (map fst ticks))
     \<and> map was_checked (snd (run_event ticks u ?c1))
           = snd (spec_schedule (interval c) (last_check ?c1) (map fst ticks))"
    using Cons.IH [OF known] by (simp add: process_event_interval)
  show ?case
  proof (cases "real_of_int (interval c) \<le> t - last_check c")
    case True
    then have "last_check ?c1 = t" "was_checked (snd (process_event t e u c))"
      using process_event_step(1,2) [OF Cons.prems, of t e u] by simp_all
    then show ?thesis
      unfolding tick using True rest by (simp add: split_beta)
  next
    case False
    then have "last_check ?c1 = last_check c" "\<not> was_checked (snd (process_event t e u c))"
      using process_event_step(1,2) [OF Cons.prems, of t e u] by simp_all
    then show ?thesis
      unfolding tick using False rest by (simp add: split_beta)
  qed
qed

lemma ticks_of_times: "map fst (ticks_of u ticks) = map fst ticks"
  by (simp add: ticks_of_def split_beta)

text \<open>
  Claim C8. Over any sequence of ticks, a registered event with a check interval of 1800
  seconds is checked exactly at the ticks of the schedule of the specification: at a
  tick at which at least 1800 seconds have passed since the last tick at which it was
  checked (since its \<^verbatim>\<open>last_check\<close> at the start, when it has not been checked yet), and
  at no other tick; and its \<^verbatim>\<open>last_check\<close> is the time of the last such tick.
\<close>

theorem checked_on_schedule:
  assumes "distinct (map fst reg)" and "(u, c) \<in> set reg"
    and "interval c = 1800" and "call_time_known c"
  shows "map_option last_check (map_of (fst (monitor_events ticks reg)) u)
           = Some (fst (spec_schedule 1800 (last_check c) (map fst ticks)))
     \<and> map (map_option was_checked) (outcomes_of u (snd (monitor_events ticks reg)))
           = map Some (snd (spec_schedule 1800 (last_check c) (map fst ticks)))"
proof -
  have run: "last_check (fst (run_event (ticks_of u ticks) u c))
           = fst (spec_schedule 1800 (last_check c) (map fst ticks))
     \<and> map was_checked (snd (run_event (ticks_of u ticks) u c))
           = snd (spec_schedule 1800 (last_check c) (map fst ticks))"
    using run_event_schedule [OF assms(4), of "ticks_of u ticks" u] assms(3)
    by (simp add: ticks_of_times)
  have look: "map_of (fst (monitor_events ticks reg)) u = Some (fst (run_event (ticks_of u ticks) u c))
     \<and> outcomes_of u (snd (monitor_events ticks reg)) = map Some (snd (run_event (ticks_of u ticks) u c))"
    using assms(1,2) by (rule monitor_events_lookup)
  show ?thesis
    using run by (simp only: look map_option_Some option.map)
qed

theorem checked_on_schedule_witness:
  "distinct (map fst (add_event [] ''a'' 1800))
   \<and> (''a'', new_event_config 1800) \<in> set (add_event [] ''a'' 1800)
   \<and> interval (new_event_config 1800) = 1800
   \<and> call_time_known (new_event_config 1800)
   \<and> map_option last_check (map_of (fst (monitor_events five_ticks (add_event [] ''a'' 1800))) ''a'')
       = Some 1001800
   \<and> map (map_option was_checked) (outcomes_of ''a'' (snd (monitor_events five_ticks (add_event [] ''a'' 1800))))
       = [Some True, Some False, Some False, Some True, Some False]"
proof -
  have h1: "distinct (map fst (add_event [] ''a'' 1800))"
    by (simp add: add_event_def)
  have h2: "(''a'', new_event_config 1800) \<in> set (add_event [] ''a'' 1800)"
    by (simp add: add_event_def)
  have h3: "interval (new_event_config 1800) = 1800"
    by (simp add: new_event_config_def)
  have h4: "call_time_known (new_event_config 1800)"
    by (rule new_event_config_known)
  have sched: "spec_schedule 1800 (last_check (new_event_config 1800)) (map fst five_ticks)
      = (1001800, [True, False, False, True, False])"
    by (simp add: new_event_config_def five_ticks_def)
  show ?thesis
    using h1 h2 h3 h4 checked_on_schedule [OF h1 h2 h3 h4, of five_ticks]
    by (simp only: sched fst_conv snd_conv list.map)
qed

lemma two_events_eq: "two_events = [(''a'', broken_config), (''b'', new_event_config 1800)]"
  by (simp add: two_events_def add_event_def)

lemma broken_event_raises:
  "map raised (snd (run_event (ticks_of ''a'' [(1000000, mixed_world), (1000060, mixed_world)]) ''a'' broken_config))
     = [Some (OtherException ''TypeError''), Some (OtherException ''TypeError'')]"
  by (simp add: ticks_of_def mixed_world_def process_event_def broken_config_def closed_env_def
      trigger_def verify_due_def truthy_def closed_page_unavailable Let_def)

lemma other_event_checked:
  "map was_checked (snd (run_event (ticks_of ''b'' [(1000000, mixed_world), (1000060, mixed_world)]) ''b''
      (new_event_config 1800))) = [True, False]"
  by (simp add: ticks_of_def mixed_world_def process_event_def new_event_config_def open_env_def
      trigger_def verify_due_def make_alert_call_def truthy_def open_page_available was_checked_def Let_def)

text \<open>
  Claim C9. Each registered event is processed at every tick exactly as if it were the
  only one: its configuration and its outcomes depend on its own answers from the
  world only, so an exception caught for another event of the tick changes nothing
  for it; and the loop runs every tick, whatever was raised before.
\<close>

theorem events_processed_independently:
  assumes "distinct (map fst reg)" and "(u, c) \<in> set reg"
  shows "map_of (fst (monitor_events ticks reg)) u = Some (fst (run_event (ticks_of u ticks) u c))
     \<and> outcomes_of u (snd (monitor_events ticks reg)) = map Some (snd (run_event (ticks_of u ticks) u c))
     \<and> length (snd (monitor_events ticks reg)) = length ticks"
  using monitor_events_lookup [OF assms, of ticks] by (simp add: monitor_events_length)

theorem events_processed_independently_witness:
  "distinct (map fst two_events)
   \<and> (''b'', new_event_config 1800) \<in> set two_events
   \<and> map raised (snd (run_event (ticks_of ''a'' [(1000000, mixed_world), (1000060, mixed_world)]) ''a'' broken_config))
       = [Some (OtherException ''TypeError''), Some (OtherException ''TypeError'')]
   \<and> outcomes_of ''b'' (snd (monitor_events [(1000000, mixed_world), (1000060, mixed_world)] two_events))
       = map Some (snd (run_event (ticks_of ''b'' [(1000000, mixed_world), (1000060, mixed_world)]) ''b''
           (new_event_config 1800)))
   \<and> map was_checked (snd (run_event (ticks_of ''b'' [(1000000, mixed_world), (1000060, mixed_world)]) ''b''
        (new_event_config 1800))) = [True, False]
   \<and> length (snd (monitor_events [(1000000, mixed_world), (1000060, mixed_world)] two_events)) = 2"
proof -
  have h1: "distinct (map fst two_events)"
    by (simp add: two_events_eq)
  have h2: "(''b'', new_event_config 1800) \<in> set two_events"
    by (simp add: two_events_eq)
  have "length [(1000000::real, mixed_world), (1000060, mixed_world)] = 2"
    by simp
  then show ?thesis
    using h1 h2 broken_event_raises other_event_checked
      events_processed_independently [OF h1 h2, of "[(1000000, mixed_world), (1000060, mixed_world)]"]
    by (simp only:)
qed

end
